theory Spec2Isabelle
  imports Complex_Main "HOL-Library.AList"
begin

section \<open>The cache and change-notification layer (backend/cache.py)\<close>

text \<open>
  The module keeps one Redis client in a module global, and offers a cache
  (\<open>CacheService\<close>: get, set, delete, delete by pattern, and helpers per domain)
  and a notifier (\<open>PubSubService\<close>) on top of it. Every operation runs inside
  \<^verbatim>\<open>try: ... except Exception\<close>.

  The embedding has three layers:
  \<^item> Python values and the \<^verbatim>\<open>json\<close> library (\<open>json.dumps(value, default=str)\<close>,
    \<open>json.loads\<close>);
  \<^item> the Redis server and its client, as an explicit state with a script of
    transport faults;
  \<^item> the functions of the module, in the order of the source.
\<close>

subsection \<open>Python values\<close>

text \<open>
  The values the callers pass in. \<open>PObj s\<close> is an object of any type the JSON
  encoder does not know (a datetime, a Decimal, an ObjectId, a set ...), carried with
  the text \<open>s\<close> that \<open>str\<close> gives for it. Dictionaries are lists of key and value in
  insertion order; a key is a string, an integer, a boolean, \<open>None\<close>, a float
  (\<open>KFloat\<close>, carried with the text \<open>float.__repr__\<close> gives for it), or another
  hashable object (\<open>KObj\<close>, again with its \<open>str\<close>). Integers are unbounded, as in
  Python. A float is a finite number, an infinity or NaN.
\<close>

datatype pyfloat = Finite real | PosInf | NegInf | NaN

datatype pykey = KStr string | KInt int | KFloat string | KBool bool | KNone | KObj string

datatype pyval =
    PNone
  | PBool bool
  | PInt int
  | PFloat pyfloat
  | PStr string
  | PList "pyval list"
  | PTuple "pyval list"
  | PDict "(pykey \<times> pyval) list"
  | PObj string

text \<open>The exceptions that occur. \<open>CancelledError\<close> derives from \<open>BaseException\<close>
  only (a task cancelled while it awaits); the others derive from \<open>Exception\<close>.\<close>

datatype exn =
    ConnectionError
  | TimeoutError
  | ResponseError
  | TypeError
  | ValueError
  | RecursionError
  | JSONDecodeError
  | CancelledError

fun is_Exception :: "exn \<Rightarrow> bool" where
  "is_Exception CancelledError = False"
| "is_Exception _ = True"

subsection \<open>The json library\<close>

text \<open>
  A JSON document. The text that \<open>json.dumps\<close> writes and \<open>json.loads\<close> reads is
  identified with the document it denotes: the text of a document is never empty.
  A number is written as an integer or as a float (with \<open>allow_nan\<close> left on, the
  infinities and NaN have texts of their own), and is read back as what it was
  written as.
\<close>

datatype json =
    JNull
  | JBool bool
  | JInt int
  | JFloat pyfloat
  | JStr string
  | JArr "json list"
  | JObj "(string \<times> json) list"

text \<open>
  \<open>int.__repr__\<close>: decimal digits, with a minus sign for a negative number. The
  interpreter refuses, with \<open>ValueError\<close>, to convert an integer of more digits than
  \<open>sys.int_max_str_digits\<close>, 4300 unless it is set otherwise, which this module does
  not do; the same holds for reading an integer from text.
\<close>

function digits :: "nat \<Rightarrow> string" where
  "digits n =
     (if n < 10 then [''0123456789'' ! n]
      else digits (n div 10) @ [''0123456789'' ! (n mod 10)])"
  by pat_completeness auto
termination
  by (relation "measure (\<lambda>n. n)") auto

definition INT_MAX_STR_DIGITS :: nat where "INT_MAX_STR_DIGITS = 4300"

definition int_fits :: "int \<Rightarrow> bool" where
  "int_fits i = (length (digits (nat \<bar>i\<bar>)) \<le> INT_MAX_STR_DIGITS)"

definition int_repr :: "int \<Rightarrow> exn + string" where
  "int_repr i =
     (if \<not> int_fits i then Inl ValueError
      else if i < 0 then Inr (CHR ''-'' # digits (nat (- i)))
      else Inr (digits (nat i)))"

text \<open>
  The encoder's treatment of a dictionary key: strings as they are; integers,
  floats, booleans and \<open>None\<close> as their JSON text; anything else raises \<open>TypeError\<close>
  (\<open>skipkeys\<close> is off, and the \<open>default\<close> hook is not asked for keys).
\<close>

fun dumps_key :: "pykey \<Rightarrow> exn + string" where
  "dumps_key (KStr s) = Inr s"
| "dumps_key (KInt i) = int_repr i"
| "dumps_key (KFloat s) = Inr s"
| "dumps_key (KBool b) = Inr (if b then ''true'' else ''false'')"
| "dumps_key KNone = Inr ''null''"
| "dumps_key (KObj s) = Inl TypeError"

text \<open>
  \<open>json.dumps(value, default=str)\<close>: lists and tuples become arrays, dictionaries
  become objects with their items in order, and a value of any other type goes
  through \<open>default\<close>, here \<open>str\<close>, whose result, a string, is encoded in its place.

  The encoder is recursive, and the interpreter bounds the recursion: \<open>dumps n v\<close>
  encodes \<open>v\<close> when \<open>n\<close> more levels can be entered. Entering a list, a tuple or a
  dictionary takes a level, and so does the step through \<open>default\<close>; with no level
  left the interpreter raises \<open>RecursionError\<close>.
\<close>

fun dumps :: "nat \<Rightarrow> pyval \<Rightarrow> exn + json"
  and dumps_list :: "nat \<Rightarrow> pyval list \<Rightarrow> exn + json list"
  and dumps_items :: "nat \<Rightarrow> (pykey \<times> pyval) list \<Rightarrow> exn + (string \<times> json) list" where
  "dumps n PNone = Inr JNull"
| "dumps n (PBool b) = Inr (JBool b)"
| "dumps n (PInt i) = (if int_fits i then Inr (JInt i) else Inl ValueError)"
| "dumps n (PFloat f) = Inr (JFloat f)"
| "dumps n (PStr s) = Inr (JStr s)"
| "dumps n (PList xs) =
     (if n = 0 then Inl RecursionError
      else case dumps_list (n - 1) xs of Inl e \<Rightarrow> Inl e | Inr js \<Rightarrow> Inr (JArr js))"
| "dumps n (PTuple xs) =
     (if n = 0 then Inl RecursionError
      else case dumps_list (n - 1) xs of Inl e \<Rightarrow> Inl e | Inr js \<Rightarrow> Inr (JArr js))"
| "dumps n (PDict kvs) =
     (if n = 0 then Inl RecursionError
      else case dumps_items (n - 1) kvs of Inl e \<Rightarrow> Inl e | Inr ms \<Rightarrow> Inr (JObj ms))"
| "dumps n (PObj s) = (if n = 0 then Inl RecursionError else Inr (JStr s))"
| "dumps_list n [] = Inr []"
| "dumps_list n (x # xs) =
     (case dumps n x of
        Inl e \<Rightarrow> Inl e
      | Inr j \<Rightarrow> (case dumps_list n xs of Inl e \<Rightarrow> Inl e | Inr js \<Rightarrow> Inr (j # js)))"
| "dumps_items n [] = Inr []"
| "dumps_items n ((k, v) # kvs) =
     (case dumps_key k of
        Inl e \<Rightarrow> Inl e
      | Inr s \<Rightarrow>
          (case dumps n v of
             Inl e \<Rightarrow> Inl e
           | Inr j \<Rightarrow> (case dumps_items n kvs of Inl e \<Rightarrow> Inl e | Inr ms \<Rightarrow> Inr ((s, j) # ms))))"

text \<open>
  \<open>json.loads\<close> on a document: arrays become lists, objects become dictionaries
  with string keys. The members of an object are inserted one after the other, so a
  repeated name keeps its first position and takes the last value. The decoder is
  recursive too: \<open>loads m j\<close> decodes \<open>j\<close> when \<open>m\<close> more levels can be entered, an
  array or an object taking one. An integer of too many digits is refused.
\<close>

fun loads :: "nat \<Rightarrow> json \<Rightarrow> exn + pyval"
  and loads_list :: "nat \<Rightarrow> json list \<Rightarrow> exn + pyval list"
  and loads_items ::
    "nat \<Rightarrow> (pykey \<times> pyval) list \<Rightarrow> (string \<times> json) list \<Rightarrow> exn + (pykey \<times> pyval) list" where
  "loads m JNull = Inr PNone"
| "loads m (JBool b) = Inr (PBool b)"
| "loads m (JInt i) = (if int_fits i then Inr (PInt i) else Inl ValueError)"
| "loads m (JFloat f) = Inr (PFloat f)"
| "loads m (JStr s) = Inr (PStr s)"
| "loads m (JArr js) =
     (if m = 0 then Inl RecursionError
      else case loads_list (m - 1) js of Inl e \<Rightarrow> Inl e | Inr xs \<Rightarrow> Inr (PList xs))"
| "loads m (JObj ms) =
     (if m = 0 then Inl RecursionError
      else case loads_items (m - 1) [] ms of Inl e \<Rightarrow> Inl e | Inr kvs \<Rightarrow> Inr (PDict kvs))"
| "loads_list m [] = Inr []"
| "loads_list m (j # js) =
     (case loads m j of
        Inl e \<Rightarrow> Inl e
      | Inr x \<Rightarrow> (case loads_list m js of Inl e \<Rightarrow> Inl e | Inr xs \<Rightarrow> Inr (x # xs)))"
| "loads_items m acc [] = Inr acc"
| "loads_items m acc ((s, j) # ms) =
     (case loads m j of
        Inl e \<Rightarrow> Inl e
      | Inr x \<Rightarrow> loads_items m (AList.update (KStr s) x acc) ms)"

text \<open>
  A string held by Redis, as far as this module tells strings apart: the empty
  string, the text of a JSON document, or any other text.
\<close>

datatype redis_str = EmptyStr | JsonText json | OtherText

subsection \<open>The Redis server and the client\<close>

text \<open>
  The state of the process and of the server it talks to:
  \<^item> \<open>redis_pool\<close> is the module global, \<open>None\<close> or the client object (named by a
    number); \<open>constructed\<close> counts the client objects \<open>redis.from_url\<close> has built;
  \<^item> \<open>store\<close> is the keyspace: each live key with its string and the seconds it has
    left to live. It changes by the commands of this process and by expiry only: no
    other client writes to it and the server evicts nothing;
  \<^item> \<open>published\<close> is the messages the server has accepted, oldest first;
  \<^item> \<open>faults\<close> says what happens to the commands to come: the head is for the next
    command, \<open>None\<close> lets it through, \<open>Some e\<close> makes the client raise \<open>e\<close> without
    the server having executed the command (the connection is down, the answer
    does not come in time, the server refuses the command for a reason of its
    configuration or of its state, such as its memory or its clock). When the
    script is used up every command goes through;
  \<^item> \<open>encoder_depth\<close> and \<open>decoder_depth\<close> say how deep the interpreter lets the
    JSON encoder and the JSON decoder go below the value they are called on. How
    much room there is depends on the interpreter and on the stack of the caller;
    the caller is taken to leave room for the value itself.
\<close>

record world =
  redis_pool :: "nat option"
  constructed :: nat
  store :: "(string \<times> redis_str \<times> int) list"
  published :: "(string \<times> redis_str) list"
  faults :: "exn option list"
  encoder_depth :: nat
  decoder_depth :: nat

text \<open>\<open>json.dumps(value, default=str)\<close> and \<open>json.loads(value)\<close> as the process calls
  them.\<close>

definition json_dumps :: "world \<Rightarrow> pyval \<Rightarrow> exn + json" where
  "json_dumps w v = dumps (Suc (encoder_depth w)) v"

fun json_loads :: "world \<Rightarrow> redis_str \<Rightarrow> exn + pyval" where
  "json_loads w (JsonText j) = loads (Suc (decoder_depth w)) j"
| "json_loads w EmptyStr = Inl JSONDecodeError"
| "json_loads w OtherText = Inl JSONDecodeError"

datatype 'a outcome = Returns 'a | Raises exn

type_synonym 'a io = "world \<Rightarrow> 'a outcome \<times> world"

definition return_io :: "'a \<Rightarrow> 'a io" where
  "return_io x w = (Returns x, w)"

definition bind_io :: "'a io \<Rightarrow> ('a \<Rightarrow> 'b io) \<Rightarrow> 'b io" where
  "bind_io m f w = (case m w of (Returns x, w') \<Rightarrow> f x w' | (Raises e, w') \<Rightarrow> (Raises e, w'))"

definition raise_or_return :: "(world \<Rightarrow> exn + 'a) \<Rightarrow> 'a io" where
  "raise_or_return f w = (case f w of Inl e \<Rightarrow> (Raises e, w) | Inr x \<Rightarrow> (Returns x, w))"

text \<open>\<^verbatim>\<open>try: body  except Exception as e: logger.warning(...); return dflt\<close>.
  The log line is not part of the state.\<close>

definition except_Exception :: "'a io \<Rightarrow> 'a \<Rightarrow> 'a io" where
  "except_Exception body dflt w =
     (case body w of
        (Raises e, w') \<Rightarrow> if is_Exception e then (Returns dflt, w') else (Raises e, w')
      | (Returns x, w') \<Rightarrow> (Returns x, w'))"

definition transport :: "world \<Rightarrow> exn option \<times> world" where
  "transport w = (case faults w of [] \<Rightarrow> (None, w) | f # fs \<Rightarrow> (f, w\<lparr>faults := fs\<rparr>))"

text \<open>
  Redis glob patterns: \<open>*\<close> matches any run of characters, \<open>?\<close> any one character,
  \<open>[...]\<close> one character of a class (single characters, ranges \<open>a-z\<close>, escaped
  characters; \<open>^\<close> in front negates the class), a backslash makes the next character
  stand for itself, and every other character stands for itself. The ends of a
  range are compared by character code, in either order. When the key is used up,
  what is left of the pattern has to be stars only.

  \<open>class_scan ps c m\<close> reads the body of a class against the character \<open>c\<close>: it returns
  whether \<open>c\<close> has matched so far (\<open>m\<close>) or matches one of the items, and the pattern
  after the closing bracket; a class that is not closed runs to the end.
\<close>

definition backslash :: char where "backslash = CHR 0x5C"

fun class_scan :: "string \<Rightarrow> char \<Rightarrow> bool \<Rightarrow> bool \<times> string" where
  "class_scan [] c m = (m, [])"
| "class_scan [p] c m = (if p = CHR '']'' then (m, []) else class_scan [] c (m \<or> p = c))"
| "class_scan [p, q] c m =
     (if p = backslash then class_scan [] c (m \<or> q = c)
      else if p = CHR '']'' then (m, [q])
      else class_scan [q] c (m \<or> p = c))"
| "class_scan (p # q # e # ps) c m =
     (if p = backslash then class_scan (e # ps) c (m \<or> q = c)
      else if p = CHR '']'' then (m, q # e # ps)
      else if q = CHR ''-'' then
        class_scan ps c
          (m \<or> (min (of_char p) (of_char e) \<le> (of_char c :: nat) \<and>
                (of_char c :: nat) \<le> max (of_char p) (of_char e)))
      else class_scan (q # e # ps) c (m \<or> p = c))"

fun glob_match :: "string \<Rightarrow> string \<Rightarrow> bool" where
  "glob_match [] s = (s = [])"
| "glob_match (p # ps) [] = (p = CHR ''*'' \<and> glob_match ps [])"
| "glob_match (p # ps) (c # cs) =
     (if p = CHR ''*'' then glob_match ps (c # cs) \<or> glob_match (p # ps) cs
      else if p = CHR ''?'' then glob_match ps cs
      else if p = CHR ''['' then
        (case (case ps of q # qs \<Rightarrow> if q = CHR ''^'' then (True, qs) else (False, ps)
                        | [] \<Rightarrow> (False, ps)) of
           (neg, body) \<Rightarrow>
             (case class_scan body c False of
                (m, rest) \<Rightarrow> m \<noteq> neg \<and> glob_match rest cs))
      else if p = backslash then
        (case ps of [] \<Rightarrow> c = backslash \<and> glob_match [] cs
                  | q # qs \<Rightarrow> q = c \<and> glob_match qs cs)
      else p = c \<and> glob_match ps cs)"

text \<open>\<open>DEL\<close>: removes the keys one after the other and counts those that were there.\<close>

fun del_keys :: "string list \<Rightarrow> (string \<times> redis_str \<times> int) list \<Rightarrow> nat \<times> (string \<times> redis_str \<times> int) list" where
  "del_keys [] st = (0, st)"
| "del_keys (k # ks) st =
     (if k \<in> fst ` set st
      then (case del_keys ks (AList.delete k st) of (n, st') \<Rightarrow> (Suc n, st'))
      else del_keys ks st)"

definition redis_get :: "nat \<Rightarrow> string \<Rightarrow> redis_str option io" where
  "redis_get r key w =
     (case transport w of
        (Some e, w') \<Rightarrow> (Raises e, w')
      | (None, w') \<Rightarrow> (Returns (map_option fst (map_of (store w') key)), w'))"

text \<open>\<open>SETEX\<close> refuses, whatever the state of the server, an expire time in seconds
  that is not positive, or that is over \<open>LLONG_MAX / 1000\<close>, the server keeping times
  in milliseconds in a 64-bit integer.\<close>

definition LLONG_MAX :: int where "LLONG_MAX = 9223372036854775807"

definition expire_ok :: "int \<Rightarrow> bool" where
  "expire_ok ttl = (0 < ttl \<and> ttl \<le> LLONG_MAX div 1000)"

definition redis_setex :: "nat \<Rightarrow> string \<Rightarrow> int \<Rightarrow> redis_str \<Rightarrow> unit io" where
  "redis_setex r key ttl v w =
     (case transport w of
        (Some e, w') \<Rightarrow> (Raises e, w')
      | (None, w') \<Rightarrow>
          if \<not> expire_ok ttl then (Raises ResponseError, w')
          else (Returns (), w'\<lparr>store := AList.update key (v, ttl) (store w')\<rparr>))"

definition redis_delete :: "nat \<Rightarrow> string list \<Rightarrow> int io" where
  "redis_delete r keys w =
     (case transport w of
        (Some e, w') \<Rightarrow> (Raises e, w')
      | (None, w') \<Rightarrow>
          (case del_keys keys (store w') of (n, st') \<Rightarrow> (Returns (int n), w'\<lparr>store := st'\<rparr>)))"

text \<open>\<open>scan_iter(match=pattern)\<close>, run to its end: the live keys that match.\<close>

definition redis_scan_iter :: "nat \<Rightarrow> string \<Rightarrow> string list io" where
  "redis_scan_iter r pattern w =
     (case transport w of
        (Some e, w') \<Rightarrow> (Raises e, w')
      | (None, w') \<Rightarrow> (Returns (filter (glob_match pattern) (map fst (store w'))), w'))"

definition redis_publish :: "nat \<Rightarrow> string \<Rightarrow> redis_str \<Rightarrow> unit io" where
  "redis_publish r channel msg w =
     (case transport w of
        (Some e, w') \<Rightarrow> (Raises e, w')
      | (None, w') \<Rightarrow> (Returns (), w'\<lparr>published := published w' @ [(channel, msg)]\<rparr>))"

text \<open>Time passing: \<open>d\<close> seconds later the keys with no more than \<open>d\<close> seconds left
  are gone, the others have \<open>d\<close> seconds less.\<close>

definition elapse :: "int \<Rightarrow> world \<Rightarrow> world" where
  "elapse d w =
     w\<lparr>store := map (\<lambda>(k, v, t). (k, v, t - d)) (filter (\<lambda>(k, v, t). d < t) (store w))\<rparr>"

subsection \<open>The connection\<close>

text \<open>\<open>redis.from_url\<close> builds a client object and does not connect yet.\<close>

definition from_url :: "nat io" where
  "from_url w = (Returns (constructed w), w\<lparr>constructed := Suc (constructed w)\<rparr>)"

definition get_redis :: "nat io" where
  "get_redis w =
     (case redis_pool w of
        None \<Rightarrow> bind_io from_url (\<lambda>r w'. (Returns r, w'\<lparr>redis_pool := Some r\<rparr>)) w
      | Some r \<Rightarrow> (Returns r, w))"

definition close_redis :: "unit io" where
  "close_redis w =
     (case redis_pool w of
        None \<Rightarrow> (Returns (), w)
      | Some r \<Rightarrow> (Returns (), w\<lparr>redis_pool := None\<rparr>))"

subsection \<open>CacheService\<close>

definition SHORT_TTL :: int where "SHORT_TTL = 60"
definition MEDIUM_TTL :: int where "MEDIUM_TTL = 300"
definition LONG_TTL :: int where "LONG_TTL = 3600"

definition PREFIX_PRODUCTS :: string where "PREFIX_PRODUCTS = ''products:''"
definition PREFIX_CATEGORIES :: string where "PREFIX_CATEGORIES = ''categories:''"
definition PREFIX_CAR_BRANDS :: string where "PREFIX_CAR_BRANDS = ''car_brands:''"
definition PREFIX_CAR_MODELS :: string where "PREFIX_CAR_MODELS = ''car_models:''"
definition PREFIX_PRODUCT_BRANDS :: string where "PREFIX_PRODUCT_BRANDS = ''product_brands:''"
definition PREFIX_USER :: string where "PREFIX_USER = ''user:''"
definition PREFIX_CART :: string where "PREFIX_CART = ''cart:''"
definition PREFIX_SYNC :: string where "PREFIX_SYNC = ''sync:''"

text \<open>\<open>ttl or d\<close> for an optional integer: \<open>None\<close> and \<open>0\<close> are falsy.\<close>

definition ttl_or :: "int option \<Rightarrow> int \<Rightarrow> int" where
  "ttl_or ttl d = (case ttl of None \<Rightarrow> d | Some t \<Rightarrow> if t = 0 then d else t)"

text \<open>\<open>if value:\<close> on the answer of \<open>GET\<close>: \<open>None\<close> (no such key) and the empty string
  are falsy.\<close>

definition CacheService_get :: "string \<Rightarrow> pyval io" where
  "CacheService_get key =
     except_Exception
       (bind_io get_redis (\<lambda>r.
        bind_io (redis_get r key) (\<lambda>value.
          case value of
            None \<Rightarrow> return_io PNone
          | Some s \<Rightarrow> if s \<noteq> EmptyStr then raise_or_return (\<lambda>w. json_loads w s)
                      else return_io PNone)))
       PNone"

definition CacheService_set :: "string \<Rightarrow> pyval \<Rightarrow> int option \<Rightarrow> bool io" where
  "CacheService_set key v ttl =
     except_Exception
       (bind_io get_redis (\<lambda>r.
        bind_io (raise_or_return (\<lambda>w. json_dumps w v)) (\<lambda>doc.
        bind_io (redis_setex r key (ttl_or ttl MEDIUM_TTL) (JsonText doc)) (\<lambda>_.
          return_io True))))
       False"

definition CacheService_delete :: "string \<Rightarrow> bool io" where
  "CacheService_delete key =
     except_Exception
       (bind_io get_redis (\<lambda>r.
        bind_io (redis_delete r [key]) (\<lambda>_.
          return_io True)))
       False"

definition CacheService_delete_pattern :: "string \<Rightarrow> int io" where
  "CacheService_delete_pattern pattern =
     except_Exception
       (bind_io get_redis (\<lambda>r.
        bind_io (redis_scan_iter r pattern) (\<lambda>keys.
          if keys \<noteq> [] then redis_delete r keys else return_io 0)))
       0"

text \<open>The helpers below have no \<open>return\<close> statement of their own where the source has
  none: such a call gives \<open>None\<close>.\<close>

definition invalidate_products :: "pyval io" where
  "invalidate_products =
     bind_io (CacheService_delete_pattern (PREFIX_PRODUCTS @ ''*'')) (\<lambda>_. return_io PNone)"

definition invalidate_categories :: "pyval io" where
  "invalidate_categories =
     bind_io (CacheService_delete_pattern (PREFIX_CATEGORIES @ ''*'')) (\<lambda>_. return_io PNone)"

definition invalidate_car_brands :: "pyval io" where
  "invalidate_car_brands =
     bind_io (CacheService_delete_pattern (PREFIX_CAR_BRANDS @ ''*'')) (\<lambda>_. return_io PNone)"

definition invalidate_car_models :: "pyval io" where
  "invalidate_car_models =
     bind_io (CacheService_delete_pattern (PREFIX_CAR_MODELS @ ''*'')) (\<lambda>_. return_io PNone)"

definition invalidate_product_brands :: "pyval io" where
  "invalidate_product_brands =
     bind_io (CacheService_delete_pattern (PREFIX_PRODUCT_BRANDS @ ''*'')) (\<lambda>_. return_io PNone)"

definition get_all_products :: "pyval io" where
  "get_all_products = CacheService_get (PREFIX_PRODUCTS @ ''all'')"

definition set_all_products :: "pyval list \<Rightarrow> int option \<Rightarrow> pyval io" where
  "set_all_products products ttl =
     bind_io (CacheService_set (PREFIX_PRODUCTS @ ''all'') (PList products) (Some (ttl_or ttl LONG_TTL)))
       (\<lambda>_. return_io PNone)"

definition get_product :: "string \<Rightarrow> pyval io" where
  "get_product product_id = CacheService_get (PREFIX_PRODUCTS @ product_id)"

definition set_product :: "string \<Rightarrow> (pykey \<times> pyval) list \<Rightarrow> int option \<Rightarrow> pyval io" where
  "set_product product_id product ttl =
     bind_io (CacheService_set (PREFIX_PRODUCTS @ product_id) (PDict product) (Some (ttl_or ttl LONG_TTL)))
       (\<lambda>_. return_io PNone)"

definition get_categories_tree :: "pyval io" where
  "get_categories_tree = CacheService_get (PREFIX_CATEGORIES @ ''tree'')"

definition set_categories_tree :: "pyval list \<Rightarrow> int option \<Rightarrow> pyval io" where
  "set_categories_tree tree ttl =
     bind_io (CacheService_set (PREFIX_CATEGORIES @ ''tree'') (PList tree) (Some (ttl_or ttl LONG_TTL)))
       (\<lambda>_. return_io PNone)"


definition set_all_car_brands :: "pyval list \<Rightarrow> int option \<Rightarrow> pyval io" where
  "set_all_car_brands brands ttl =
     bind_io (CacheService_set (PREFIX_CAR_BRANDS @ ''all'') (PList brands) (Some (ttl_or ttl LONG_TTL)))
       (\<lambda>_. return_io PNone)"

definition get_all_car_models :: "pyval io" where
  "get_all_car_models = CacheService_get (PREFIX_CAR_MODELS @ ''all'')"

definition set_all_car_models :: "pyval list \<Rightarrow> int option \<Rightarrow> pyval io" where
  "set_all_car_models models ttl =
     bind_io (CacheService_set (PREFIX_CAR_MODELS @ ''all'') (PList models) (Some (ttl_or ttl LONG_TTL)))
       (\<lambda>_. return_io PNone)"

definition get_all_product_brands :: "pyval io" where
  "get_all_product_brands = CacheService_get (PREFIX_PRODUCT_BRANDS @ ''all'')"

definition set_all_product_brands :: "pyval list \<Rightarrow> int option \<Rightarrow> pyval io" where
  "set_all_product_brands brands ttl =
     bind_io (CacheService_set (PREFIX_PRODUCT_BRANDS @ ''all'') (PList brands) (Some (ttl_or ttl LONG_TTL)))
       (\<lambda>_. return_io PNone)"

definition get_last_sync_timestamp :: "string \<Rightarrow> pyval io" where
  "get_last_sync_timestamp table = CacheService_get (PREFIX_SYNC @ ''timestamp:'' @ table)"

definition set_last_sync_timestamp :: "string \<Rightarrow> int \<Rightarrow> pyval io" where
  "set_last_sync_timestamp table timestamp =
     bind_io (CacheService_set (PREFIX_SYNC @ ''timestamp:'' @ table) (PInt timestamp) (Some LONG_TTL))
       (\<lambda>_. return_io PNone)"

subsection \<open>PubSubService\<close>

definition CHANNEL_PRODUCTS :: string where "CHANNEL_PRODUCTS = ''channel:products''"
definition CHANNEL_ORDERS :: string where "CHANNEL_ORDERS = ''channel:orders''"
definition CHANNEL_SYNC :: string where "CHANNEL_SYNC = ''channel:sync''"

definition publish :: "string \<Rightarrow> (pykey \<times> pyval) list \<Rightarrow> pyval io" where
  "publish channel message =
     except_Exception
       (bind_io get_redis (\<lambda>r.
        bind_io (raise_or_return (\<lambda>w. json_dumps w (PDict message))) (\<lambda>doc.
        bind_io (redis_publish r channel (JsonText doc)) (\<lambda>_.
          return_io PNone))))
       PNone"

definition notify_product_change :: "string \<Rightarrow> string \<Rightarrow> pyval io" where
  "notify_product_change product_id action =
     bind_io
       (publish CHANNEL_PRODUCTS
          [(KStr ''product_id'', PStr product_id), (KStr ''action'', PStr action)])
       (\<lambda>_. return_io PNone)"

definition notify_order_change :: "string \<Rightarrow> string \<Rightarrow> string option \<Rightarrow> pyval io" where
  "notify_order_change order_id action user_id =
     bind_io
       (publish CHANNEL_ORDERS
          [(KStr ''order_id'', PStr order_id), (KStr ''action'', PStr action),
           (KStr ''user_id'', (case user_id of None \<Rightarrow> PNone | Some u \<Rightarrow> PStr u))])
       (\<lambda>_. return_io PNone)"

definition notify_sync_available :: "pyval list \<Rightarrow> pyval io" where
  "notify_sync_available tables =
     bind_io
       (publish CHANNEL_SYNC
          [(KStr ''tables'', PList tables), (KStr ''action'', PStr ''sync_available'')])
       (\<lambda>_. return_io PNone)"

subsection \<open>Notions used by the properties\<close>

text \<open>\<open>goes_through n w\<close>: the transport lets the next \<open>n\<close> commands through.\<close>

definition goes_through :: "nat \<Rightarrow> world \<Rightarrow> bool" where
  "goes_through n w = list_all (\<lambda>f. f = None) (take n (faults w))"

text \<open>The process at its start, with an empty server that answers.\<close>

definition fresh_world :: world where
  "fresh_world =
     \<lparr>redis_pool = None, constructed = 0, store = [], published = [], faults = [],
      encoder_depth = 100, decoder_depth = 100\<rparr>"


text \<open>
  A value is JSON-serializable when \<open>json.dumps\<close> takes it as it is, with no
  \<open>default\<close> hook: \<open>None\<close>, booleans, integers, floats, strings, lists and tuples
  of such values, and dictionaries of such values whose keys are strings, integers,
  floats, booleans or \<open>None\<close>.
\<close>

fun json_serializable :: "pyval \<Rightarrow> bool"
  and json_serializable_list :: "pyval list \<Rightarrow> bool"
  and json_serializable_items :: "(pykey \<times> pyval) list \<Rightarrow> bool" where
  "json_serializable (PList xs) = json_serializable_list xs"
| "json_serializable (PTuple xs) = json_serializable_list xs"
| "json_serializable (PDict kvs) = (distinct (map fst kvs) \<and> json_serializable_items kvs)"
| "json_serializable (PObj s) = False"
| "json_serializable _ = True"
| "json_serializable_list [] = True"
| "json_serializable_list (x # xs) = (json_serializable x \<and> json_serializable_list xs)"
| "json_serializable_items [] = True"
| "json_serializable_items ((k, v) # kvs) =
     ((case k of KObj s \<Rightarrow> False | _ \<Rightarrow> True) \<and> json_serializable v \<and> json_serializable_items kvs)"










section \<open>Properties\<close>

subsection \<open>The limit on the digits of an integer\<close>

lemma length_digits_pos: "0 < length (digits n)"
  by (induction n rule: digits.induct) (subst digits.simps, simp)

lemma length_digits_Suc: "length (digits n) \<le> Suc k \<longleftrightarrow> n < 10 ^ Suc k"
proof (induction k arbitrary: n)
  case 0
  show ?case
  proof (cases "n < 10")
    case True
    then show ?thesis by (subst digits.simps) simp
  next
    case False
    then show ?thesis using length_digits_pos[of "n div 10"]
      by (subst digits.simps) simp
  qed
next
  case (Suc k)
  show ?case
  proof (cases "n < 10")
    case True
    have "(1::nat) \<le> 10 ^ k" by simp
    then have "(10::nat) \<le> 10 ^ Suc (Suc k)" by simp
    with True have "n < 10 ^ Suc (Suc k)" by linarith
    with True show ?thesis by (subst digits.simps) (simp del: power_Suc)
  next
    case False
    have "n div 10 < 10 ^ Suc k \<longleftrightarrow> n < 10 ^ Suc (Suc k)"
      by (simp add: div_less_iff_less_mult mult.commute)
    with False Suc[of "n div 10"] show ?thesis
      by (subst digits.simps) simp
  qed
qed

lemma length_digits_le: "0 < k \<Longrightarrow> length (digits n) \<le> k \<longleftrightarrow> n < 10 ^ k"
  using length_digits_Suc[of n "k - 1"] by simp

lemma INT_MAX_STR_DIGITS_pos: "0 < INT_MAX_STR_DIGITS"
  by (simp add: INT_MAX_STR_DIGITS_def)

lemma int_fits_iff: "int_fits i \<longleftrightarrow> \<bar>i\<bar> < 10 ^ INT_MAX_STR_DIGITS"
proof -
  have "length (digits (nat \<bar>i\<bar>)) \<le> INT_MAX_STR_DIGITS \<longleftrightarrow> nat \<bar>i\<bar> < 10 ^ INT_MAX_STR_DIGITS"
    by (rule length_digits_le[OF INT_MAX_STR_DIGITS_pos])
  moreover have "nat \<bar>i\<bar> < 10 ^ INT_MAX_STR_DIGITS \<longleftrightarrow> \<bar>i\<bar> < 10 ^ INT_MAX_STR_DIGITS"
    by (metis abs_ge_zero nat_less_iff of_nat_numeral of_nat_power)
  ultimately show ?thesis
    by (simp only: int_fits_def)
qed

lemma int_too_long: "\<not> int_fits (10 ^ INT_MAX_STR_DIGITS)"
  by (simp add: int_fits_iff)

subsection \<open>What the json library gives back\<close>








lemma int_repr_raises: "int_repr i = Inl e \<Longrightarrow> is_Exception e"
  by (auto simp: int_repr_def split: if_splits)

lemma dumps_raises:
  "dumps n v = Inl e \<Longrightarrow> is_Exception e"
  "dumps_list n xs = Inl e \<Longrightarrow> is_Exception e"
  "dumps_items n kvs = Inl e \<Longrightarrow> is_Exception e"
proof (induction n v and n xs and n kvs rule: dumps_dumps_list_dumps_items.induct)
  case (13 n k v kvs)
  then show ?case by (cases k) (auto split: sum.splits dest: int_repr_raises)
qed (auto split: sum.splits if_splits)





subsection \<open>Running the operations\<close>

lemma loads_raises:
  "loads m j = Inl e \<Longrightarrow> is_Exception e"
  "loads_list m js = Inl e \<Longrightarrow> is_Exception e"
  "loads_items m acc ms = Inl e \<Longrightarrow> is_Exception e"
  by (induction m j and m js and m acc ms rule: loads_loads_list_loads_items.induct)
    (auto split: sum.splits if_splits)

lemma transport_eq:
  "transport w = ((case faults w of [] \<Rightarrow> None | f # _ \<Rightarrow> f), w\<lparr>faults := tl (faults w)\<rparr>)"
  by (simp add: transport_def split: list.splits)

lemma goes_through_Suc:
  "goes_through (Suc n) w \<Longrightarrow> (case faults w of [] \<Rightarrow> None | f # _ \<Rightarrow> f) = None"
  by (auto simp: goes_through_def split: list.splits)

lemma goes_through_tl:
  "goes_through (Suc n) w \<Longrightarrow> faults w' = tl (faults w) \<Longrightarrow> goes_through n w'"
  by (cases "faults w") (auto simp: goes_through_def)

lemma goes_through_less: "goes_through (Suc n) w \<Longrightarrow> goes_through n w"
  using set_take_subset_set_take[of n "Suc n" "faults w"]
  by (auto simp: goes_through_def list_all_iff)

lemma get_redis_eq:
  "get_redis w =
     (Returns (case redis_pool w of None \<Rightarrow> constructed w | Some r \<Rightarrow> r),
      w\<lparr>redis_pool := Some (case redis_pool w of None \<Rightarrow> constructed w | Some r \<Rightarrow> r),
        constructed := (case redis_pool w of None \<Rightarrow> Suc (constructed w) | Some r \<Rightarrow> constructed w)\<rparr>)"
  by (simp add: get_redis_def from_url_def bind_io_def split: option.splits)

lemma CacheService_set_ok:
  assumes "json_dumps w v = Inr j" and "expire_ok (ttl_or ttl MEDIUM_TTL)"
    and "goes_through (Suc n) w"
  shows "CacheService_set k v ttl w =
     (Returns True,
      (snd (get_redis w))\<lparr>faults := tl (faults w),
         store := AList.update k (JsonText j, ttl_or ttl MEDIUM_TTL) (store w)\<rparr>)"
  using assms goes_through_Suc[OF assms(3)]
  by (simp add: CacheService_set_def except_Exception_def bind_io_def get_redis_eq
      raise_or_return_def redis_setex_def transport_eq return_io_def json_dumps_def)


lemma CacheService_get_ok:
  assumes "goes_through (Suc n) w"
  shows "CacheService_get k w =
     (Returns (case map_of (store w) k of
                 Some (JsonText j, t) \<Rightarrow>
                   (case json_loads w (JsonText j) of Inr v \<Rightarrow> v | Inl e \<Rightarrow> PNone)
               | _ \<Rightarrow> PNone),
      (snd (get_redis w))\<lparr>faults := tl (faults w)\<rparr>)"
  using goes_through_Suc[OF assms]
  by (auto simp add: CacheService_get_def except_Exception_def bind_io_def get_redis_eq
      raise_or_return_def redis_get_def transport_eq return_io_def
      split: option.splits redis_str.splits sum.splits dest: loads_raises(1))

lemma map_of_elapse:
  "map_of st k = Some (v, t) \<Longrightarrow> d < t \<Longrightarrow>
   map_of (map (\<lambda>(k, v, t). (k, v, t - d)) (filter (\<lambda>(k, v, t). d < t) st)) k = Some (v, t - d)"
  by (induction st) (auto split: if_splits)

subsection \<open>Set followed by get\<close>

lemma depth_after_set [simp]:
  "decoder_depth (snd (CacheService_set k v ttl w)) = decoder_depth w"
  "encoder_depth (snd (CacheService_set k v ttl w)) = encoder_depth w"
  by (auto simp add: CacheService_set_def except_Exception_def bind_io_def get_redis_eq
      raise_or_return_def redis_setex_def transport_eq return_io_def
      split: sum.splits option.splits list.splits)

lemma faults_after_set:
  "json_dumps w v = Inr j \<Longrightarrow> expire_ok (ttl_or ttl MEDIUM_TTL) \<Longrightarrow> goes_through (Suc n) w \<Longrightarrow>
   goes_through n (elapse d (snd (CacheService_set k v ttl w)))"
  by (rule goes_through_tl, assumption) (simp add: CacheService_set_ok elapse_def)

lemma store_after_set:
  "json_dumps w v = Inr j \<Longrightarrow> expire_ok (ttl_or ttl MEDIUM_TTL) \<Longrightarrow> goes_through (Suc n) w \<Longrightarrow>
   store (snd (CacheService_set k v ttl w)) =
     AList.update k (JsonText j, ttl_or ttl MEDIUM_TTL) (store w)"
  by (simp add: CacheService_set_ok)

lemma stored_by_set:
  assumes "json_dumps w v = Inr j" and "expire_ok (ttl_or ttl MEDIUM_TTL)"
    and "goes_through (Suc n) w"
  shows "map_of (store (snd (CacheService_set k v ttl w))) k = Some (JsonText j, ttl_or ttl MEDIUM_TTL)"
  by (simp add: store_after_set[OF assms] update_conv')

lemma get_after_set:
  assumes j: "json_dumps w v = Inr j" and t: "expire_ok (ttl_or ttl MEDIUM_TTL)"
    and g: "goes_through (Suc (Suc n)) w" and d: "d < ttl_or ttl MEDIUM_TTL"
    and l: "loads (Suc (decoder_depth w)) j = Inr v'"
  shows "fst (CacheService_get k (elapse d (snd (CacheService_set k v ttl w)))) = Returns v'"
proof -
  let ?w' = "elapse d (snd (CacheService_set k v ttl w))"
  have dd: "decoder_depth ?w' = decoder_depth w" by (simp add: elapse_def)
  have "map_of (store ?w') k = Some (JsonText j, ttl_or ttl MEDIUM_TTL - d)"
    using map_of_elapse[OF stored_by_set[OF j t g, of k] d] by (simp add: elapse_def)
  then show ?thesis
    by (simp add: CacheService_get_ok[OF faults_after_set[OF j t g]] dd l)
qed

lemma get_after_set_now:
  assumes j: "json_dumps w v = Inr j" and t: "expire_ok (ttl_or ttl MEDIUM_TTL)"
    and g: "goes_through (Suc (Suc n)) w"
    and l: "loads (Suc (decoder_depth w)) j = Inr v'"
  shows "fst (CacheService_get k (snd (CacheService_set k v ttl w))) = Returns v'"
proof -
  have g': "goes_through (Suc n) (snd (CacheService_set k v ttl w))"
    by (rule goes_through_tl[OF g]) (simp add: CacheService_set_ok[OF j t g])
  show ?thesis
    by (simp add: CacheService_get_ok[OF g'] store_after_set[OF j t g] update_conv' l)
qed




lemma then_None:
  "fst (m w) = Returns x \<Longrightarrow> bind_io m (\<lambda>_. return_io PNone) w = (Returns PNone, snd (m w))"
  by (cases "m w") (simp add: bind_io_def return_io_def)

lemma ttl_or_LONG:
  "expire_ok (ttl_or ttl LONG_TTL) \<Longrightarrow>
   ttl_or (Some (ttl_or ttl LONG_TTL)) MEDIUM_TTL = ttl_or ttl LONG_TTL"
  by (auto simp add: ttl_or_def expire_ok_def)

lemma setter_eq:
  assumes "json_dumps w v = Inr j" and "expire_ok (ttl_or ttl LONG_TTL)"
    and "goes_through (Suc n) w"
  shows "bind_io (CacheService_set k v (Some (ttl_or ttl LONG_TTL))) (\<lambda>_. return_io PNone) w =
         (Returns PNone, snd (CacheService_set k v (Some (ttl_or ttl LONG_TTL)) w))"
proof -
  have t0: "expire_ok (ttl_or (Some (ttl_or ttl LONG_TTL)) MEDIUM_TTL)"
    using assms(2) by (simp add: ttl_or_LONG)
  show ?thesis
    by (rule then_None[of _ _ True]) (simp add: CacheService_set_ok[OF assms(1) t0 assms(3)])
qed

lemma stored_by_setter:
  assumes "json_dumps w v = Inr j" and "expire_ok (ttl_or ttl LONG_TTL)"
    and "goes_through (Suc n) w"
  shows "map_of (store (snd (bind_io (CacheService_set k v (Some (ttl_or ttl LONG_TTL)))
            (\<lambda>_. return_io PNone) w))) k =
         Some (JsonText j, ttl_or ttl LONG_TTL)"
proof -
  have t0: "expire_ok (ttl_or (Some (ttl_or ttl LONG_TTL)) MEDIUM_TTL)"
    using assms(2) by (simp add: ttl_or_LONG)
  show ?thesis
    using stored_by_set[OF assms(1) t0 assms(3), of k]
    by (simp add: setter_eq[OF assms] ttl_or_LONG[OF assms(2)])
qed

lemma zero_LONG: "ttl_or (Some 0) LONG_TTL = 3600" "expire_ok (ttl_or (Some 0) LONG_TTL)"
  "ttl_or None LONG_TTL = 3600" "expire_ok (ttl_or None LONG_TTL)"
  by (simp_all add: ttl_or_def LONG_TTL_def expire_ok_def LLONG_MAX_def)

lemma store_after_setter:
  assumes "json_dumps w v = Inr j" and "expire_ok (ttl_or ttl LONG_TTL)"
    and "goes_through (Suc n) w"
  shows "map_of (store (snd (bind_io (CacheService_set k v (Some (ttl_or ttl LONG_TTL)))
            (\<lambda>_. return_io PNone) w))) =
         (map_of (store w))(k \<mapsto> (JsonText j, ttl_or ttl LONG_TTL))"
proof -
  have t0: "expire_ok (ttl_or (Some (ttl_or ttl LONG_TTL)) MEDIUM_TTL)"
    using assms(2) by (simp add: ttl_or_LONG)
  show ?thesis
    by (simp add: setter_eq[OF assms] store_after_set[OF assms(1) t0 assms(3)] update_conv'
        ttl_or_LONG[OF assms(2)])
qed

lemma get_after_setter:
  assumes "json_dumps w v = Inr j" and "expire_ok (ttl_or ttl LONG_TTL)"
    and "goes_through (Suc (Suc n)) w" and "loads (Suc (decoder_depth w)) j = Inr v'"
  shows "fst (CacheService_get k (snd (bind_io (CacheService_set k v (Some (ttl_or ttl LONG_TTL)))
            (\<lambda>_. return_io PNone) w))) = Returns v'"
proof -
  have t0: "expire_ok (ttl_or (Some (ttl_or ttl LONG_TTL)) MEDIUM_TTL)"
    using assms(2) by (simp add: ttl_or_LONG)
  show ?thesis
    using get_after_set_now[OF assms(1) t0 assms(3,4), of k]
    by (simp add: setter_eq[OF assms(1,2,3)])
qed




text \<open>
  C6, as amended. For every table name and every integer timestamp of no more
  digits than the interpreter converts to text (4300): when the transport lets the
  commands through, \<open>set_last_sync_timestamp(table, timestamp)\<close> stores the integer
  under the key \<open>sync:timestamp:{table}\<close> with 3600 seconds to live (the function
  takes no TTL) and changes no other key; \<open>get_last_sync_timestamp(table)\<close> after it
  returns that integer, and returns \<open>None\<close> when the key is not in the store.
\<close>

theorem sync_timestamp_stored_and_read:
  assumes "int_fits ts" and "goes_through 2 w"
  shows "map_of (store (snd (set_last_sync_timestamp table ts w))) =
           (map_of (store w))(''sync:timestamp:'' @ table \<mapsto> (JsonText (JInt ts), 3600)) \<and>
         fst (get_last_sync_timestamp table (snd (set_last_sync_timestamp table ts w))) = Returns (PInt ts) \<and>
         (map_of (store w) (''sync:timestamp:'' @ table) = None \<longrightarrow>
            fst (get_last_sync_timestamp table w) = Returns PNone)"
proof -
  have g: "goes_through (Suc (Suc 0)) w" using assms(2) by (simp add: numeral_2_eq_2)
  have g1: "goes_through (Suc 0) w" by (rule goes_through_less[OF g])
  have j: "json_dumps w (PInt ts) = Inr (JInt ts)" using assms(1) by (simp add: json_dumps_def)
  have r: "loads (Suc (decoder_depth w)) (JInt ts) = Inr (PInt ts)" using assms(1) by simp
  have l: "ttl_or None LONG_TTL = LONG_TTL" "expire_ok (ttl_or None LONG_TTL)" "LONG_TTL = 3600"
    by (simp_all add: ttl_or_def LONG_TTL_def expire_ok_def LLONG_MAX_def)
  have "map_of (store (snd (set_last_sync_timestamp table ts w))) =
           (map_of (store w))(''sync:timestamp:'' @ table \<mapsto> (JsonText (JInt ts), 3600))"
    using store_after_setter[OF j l(2) g, of "''sync:timestamp:'' @ table"]
    by (simp add: set_last_sync_timestamp_def PREFIX_SYNC_def l(1) l(3)[symmetric])
  moreover have "fst (get_last_sync_timestamp table (snd (set_last_sync_timestamp table ts w))) = Returns (PInt ts)"
    using get_after_setter[OF j l(2) g r, of "''sync:timestamp:'' @ table"]
    by (simp add: set_last_sync_timestamp_def get_last_sync_timestamp_def PREFIX_SYNC_def l(1))
  moreover have "map_of (store w) (''sync:timestamp:'' @ table) = None \<Longrightarrow>
            fst (get_last_sync_timestamp table w) = Returns PNone"
    by (simp add: get_last_sync_timestamp_def PREFIX_SYNC_def CacheService_get_ok[OF g1])
  ultimately show ?thesis by blast
qed

theorem sync_timestamp_stored_and_read_witness:
  "int_fits 1700000000 \<and> goes_through 2 fresh_world \<and>
   map_of (store (snd (set_last_sync_timestamp ''products'' 1700000000 fresh_world))) =
     (map_of (store fresh_world))(''sync:timestamp:products'' \<mapsto> (JsonText (JInt 1700000000), 3600)) \<and>
   fst (get_last_sync_timestamp ''products'' (snd (set_last_sync_timestamp ''products'' 1700000000 fresh_world)))
     = Returns (PInt 1700000000) \<and>
   map_of (store fresh_world) ''sync:timestamp:products'' = None \<and>
   fst (get_last_sync_timestamp ''products'' fresh_world) = Returns PNone"
proof -
  have g: "goes_through 2 fresh_world" by (simp add: goes_through_def fresh_world_def)
  have n: "map_of (store fresh_world) ''sync:timestamp:products'' = None" by (simp add: fresh_world_def)
  have f: "int_fits 1700000000" by (simp add: int_fits_def INT_MAX_STR_DIGITS_def)
  show ?thesis
    using f g n sync_timestamp_stored_and_read[OF f g, of "''products''"] by simp
qed

text \<open>
  C6 as it is stated (for every integer) fails at the integer \<open>10 ^ 4300\<close>, of 4301
  digits: \<open>json.dumps\<close> raises \<open>ValueError\<close>, nothing is stored, and
  \<open>get_last_sync_timestamp\<close> returns \<open>None\<close>.
\<close>

theorem sync_timestamp_counterexample:
  "store (snd (set_last_sync_timestamp ''products'' (10 ^ INT_MAX_STR_DIGITS) fresh_world)) = [] \<and>
   fst (get_last_sync_timestamp ''products''
          (snd (set_last_sync_timestamp ''products'' (10 ^ INT_MAX_STR_DIGITS) fresh_world)))
     = Returns PNone"
proof -
  have d: "json_dumps w (PInt (10 ^ INT_MAX_STR_DIGITS)) = Inl ValueError" for w
    using int_too_long by (simp add: json_dumps_def)
  have s: "set_last_sync_timestamp ''products'' (10 ^ INT_MAX_STR_DIGITS) fresh_world =
      (Returns PNone, fresh_world\<lparr>redis_pool := Some 0, constructed := Suc 0\<rparr>)"
    by (simp add: set_last_sync_timestamp_def CacheService_set_def except_Exception_def
        bind_io_def get_redis_eq raise_or_return_def return_io_def d)
      (simp add: fresh_world_def)
  have g: "goes_through (Suc 0) (fresh_world\<lparr>redis_pool := Some 0, constructed := Suc 0\<rparr>)"
    by (simp add: goes_through_def fresh_world_def)
  show ?thesis
    by (simp add: s get_last_sync_timestamp_def CacheService_get_ok[OF g]) (simp add: fresh_world_def)
qed

subsection \<open>The TTL argument\<close>

text \<open>
  C9. A TTL of 0 is falsy: \<open>set(k, v, 0)\<close> does what \<open>set(k, v)\<close> does, and when
  the value serializes and the command goes through, the entry is stored with 300
  seconds to live. Each setter of a domain, given a TTL of 0, stores its entry with
  3600 seconds to live.
\<close>

theorem falsy_ttl_replaced_by_default:
  assumes "goes_through 1 w"
  shows "CacheService_set k v None w = CacheService_set k v (Some 0) w \<and>
         set_all_products xs None w = set_all_products xs (Some 0) w \<and>
         (json_dumps w v = Inr j \<longrightarrow>
            map_of (store (snd (CacheService_set k v (Some 0) w))) k = Some (JsonText j, 300)) \<and>
         (json_dumps w (PList xs) = Inr jl \<longrightarrow>
            map_of (store (snd (set_all_products xs (Some 0) w))) ''products:all'' = Some (JsonText jl, 3600) \<and>
            map_of (store (snd (set_categories_tree xs (Some 0) w))) ''categories:tree'' = Some (JsonText jl, 3600) \<and>
            map_of (store (snd (set_all_car_brands xs (Some 0) w))) ''car_brands:all'' = Some (JsonText jl, 3600) \<and>
            map_of (store (snd (set_all_car_models xs (Some 0) w))) ''car_models:all'' = Some (JsonText jl, 3600) \<and>
            map_of (store (snd (set_all_product_brands xs (Some 0) w))) ''product_brands:all'' = Some (JsonText jl, 3600)) \<and>
         (json_dumps w (PDict p) = Inr jd \<longrightarrow>
            map_of (store (snd (set_product pid p (Some 0) w))) (''products:'' @ pid) = Some (JsonText jd, 3600))"
proof -
  have g: "goes_through (Suc 0) w" using assms by simp
  have m: "ttl_or (Some 0) MEDIUM_TTL = 300" "expire_ok (ttl_or (Some 0) MEDIUM_TTL)"
    by (simp_all add: ttl_or_def MEDIUM_TTL_def expire_ok_def LLONG_MAX_def)
  have a: "json_dumps w v = Inr j \<Longrightarrow>
      map_of (store (snd (CacheService_set k v (Some 0) w))) k = Some (JsonText j, 300)"
    using stored_by_set[OF _ m(2) g, of v j k] by (simp add: m(1))
  have b: "json_dumps w v' = Inr j' \<Longrightarrow>
      map_of (store (snd (bind_io (CacheService_set k' v' (Some (ttl_or (Some 0) LONG_TTL)))
            (\<lambda>_. return_io PNone) w))) k' = Some (JsonText j', 3600)" for v' j' k'
    using stored_by_setter[OF _ zero_LONG(2) g, of v' j' k'] by (simp add: zero_LONG(1))
  have c: "CacheService_set k v None w = CacheService_set k v (Some 0) w"
    by (simp add: CacheService_set_def ttl_or_def)
  have c': "set_all_products xs None w = set_all_products xs (Some 0) w"
    by (simp add: set_all_products_def ttl_or_def)
  have s1: "json_dumps w (PList xs) = Inr jl \<Longrightarrow>
      map_of (store (snd (set_all_products xs (Some 0) w))) ''products:all'' = Some (JsonText jl, 3600)"
    using b[of "PList xs" jl "''products:all''"] by (simp add: set_all_products_def PREFIX_PRODUCTS_def)
  have s2: "json_dumps w (PList xs) = Inr jl \<Longrightarrow>
      map_of (store (snd (set_categories_tree xs (Some 0) w))) ''categories:tree'' = Some (JsonText jl, 3600)"
    using b[of "PList xs" jl "''categories:tree''"]
    by (simp add: set_categories_tree_def PREFIX_CATEGORIES_def)
  have s3: "json_dumps w (PList xs) = Inr jl \<Longrightarrow>
      map_of (store (snd (set_all_car_brands xs (Some 0) w))) ''car_brands:all'' = Some (JsonText jl, 3600)"
    using b[of "PList xs" jl "''car_brands:all''"]
    by (simp add: set_all_car_brands_def PREFIX_CAR_BRANDS_def)
  have s4: "json_dumps w (PList xs) = Inr jl \<Longrightarrow>
      map_of (store (snd (set_all_car_models xs (Some 0) w))) ''car_models:all'' = Some (JsonText jl, 3600)"
    using b[of "PList xs" jl "''car_models:all''"]
    by (simp add: set_all_car_models_def PREFIX_CAR_MODELS_def)
  have s5: "json_dumps w (PList xs) = Inr jl \<Longrightarrow>
      map_of (store (snd (set_all_product_brands xs (Some 0) w))) ''product_brands:all'' = Some (JsonText jl, 3600)"
    using b[of "PList xs" jl "''product_brands:all''"]
    by (simp add: set_all_product_brands_def PREFIX_PRODUCT_BRANDS_def)
  have s6: "json_dumps w (PDict p) = Inr jd \<Longrightarrow>
      map_of (store (snd (set_product pid p (Some 0) w))) (''products:'' @ pid) = Some (JsonText jd, 3600)"
    using b[of "PDict p" jd "''products:'' @ pid"]
    by (simp add: set_product_def PREFIX_PRODUCTS_def)
  from c c' a s1 s2 s3 s4 s5 s6 show ?thesis by blast
qed

theorem falsy_ttl_replaced_by_default_witness:
  "goes_through 1 fresh_world \<and> json_dumps fresh_world (PInt 7) = Inr (JInt 7) \<and>
   json_dumps fresh_world (PList [PStr ''a'']) = Inr (JArr [JStr ''a'']) \<and>
   json_dumps fresh_world (PDict [(KStr ''id'', PInt 1)]) = Inr (JObj [(''id'', JInt 1)]) \<and>
   map_of (store (snd (CacheService_set ''k'' (PInt 7) (Some 0) fresh_world))) ''k'' = Some (JsonText (JInt 7), 300) \<and>
   map_of (store (snd (set_all_products [PStr ''a''] (Some 0) fresh_world))) ''products:all''
      = Some (JsonText (JArr [JStr ''a'']), 3600) \<and>
   map_of (store (snd (set_product ''p1'' [(KStr ''id'', PInt 1)] (Some 0) fresh_world))) ''products:p1''
      = Some (JsonText (JObj [(''id'', JInt 1)]), 3600)"
proof -
  have g: "goes_through 1 fresh_world" by (simp add: goes_through_def fresh_world_def)
  have f: "int_fits 7" "int_fits 1" by (simp_all add: int_fits_def INT_MAX_STR_DIGITS_def)
  have j: "json_dumps fresh_world (PInt 7) = Inr (JInt 7)"
    "json_dumps fresh_world (PList [PStr ''a'']) = Inr (JArr [JStr ''a''])"
    "json_dumps fresh_world (PDict [(KStr ''id'', PInt 1)]) = Inr (JObj [(''id'', JInt 1)])"
    by (simp_all add: json_dumps_def f)
  show ?thesis
    using g j falsy_ttl_replaced_by_default[OF g, where v = "PInt 7" and j = "JInt 7" and k = "''k''"
        and xs = "[PStr ''a'']" and jl = "JArr [JStr ''a'']" and p = "[(KStr ''id'', PInt 1)]"
        and jd = "JObj [(''id'', JInt 1)]" and pid = "''p1''"]
    by simp
qed

subsection \<open>A cached null\<close>

text \<open>
  C10. For every key \<open>k\<close>: when the transport lets the commands through,
  \<open>set(k, None)\<close> returns \<open>True\<close>; at any time before the 300 seconds are over the
  key is in the store, holding the JSON text \<open>null\<close>, and \<open>get(k)\<close> returns \<open>None\<close>,
  which is also what \<open>get(k)\<close> returns for a key that is not in the store.
\<close>

theorem cached_null_reads_as_absent:
  assumes "goes_through 2 w" and "0 \<le> d" and "d < 300"
  shows "fst (CacheService_set k PNone None w) = Returns True \<and>
         map_of (store (elapse d (snd (CacheService_set k PNone None w)))) k
           = Some (JsonText JNull, 300 - d) \<and>
         fst (CacheService_get k (elapse d (snd (CacheService_set k PNone None w)))) = Returns PNone \<and>
         (map_of (store w) k = None \<longrightarrow> fst (CacheService_get k w) = Returns PNone)"
proof -
  have g: "goes_through (Suc (Suc 0)) w" using assms(1) by (simp add: numeral_2_eq_2)
  have g1: "goes_through (Suc 0) w" by (rule goes_through_less[OF g])
  have j: "json_dumps w PNone = Inr JNull" by (simp add: json_dumps_def)
  have l: "loads (Suc (decoder_depth w)) JNull = Inr PNone" by simp
  have t: "ttl_or None MEDIUM_TTL = 300" by (simp add: ttl_or_def MEDIUM_TTL_def)
  have t0: "expire_ok (ttl_or None MEDIUM_TTL)" and dt: "d < ttl_or None MEDIUM_TTL"
    using assms(3) by (simp_all add: t expire_ok_def LLONG_MAX_def)
  have "fst (CacheService_set k PNone None w) = Returns True"
    by (simp add: CacheService_set_ok[OF j t0 g])
  moreover have "map_of (store (elapse d (snd (CacheService_set k PNone None w)))) k
           = Some (JsonText JNull, 300 - d)"
    using map_of_elapse[OF stored_by_set[OF j t0 g, of k] dt] by (simp add: elapse_def t)
  moreover have "fst (CacheService_get k (elapse d (snd (CacheService_set k PNone None w)))) = Returns PNone"
    using get_after_set[OF j t0 g dt l, of k] by simp
  moreover have "map_of (store w) k = None \<Longrightarrow> fst (CacheService_get k w) = Returns PNone"
    by (simp add: CacheService_get_ok[OF g1])
  ultimately show ?thesis by blast
qed

theorem cached_null_reads_as_absent_witness:
  "goes_through 2 fresh_world \<and> (0::int) \<le> 10 \<and> (10::int) < 300 \<and>
   fst (CacheService_set ''k'' PNone None fresh_world) = Returns True \<and>
   map_of (store (elapse 10 (snd (CacheService_set ''k'' PNone None fresh_world)))) ''k''
     = Some (JsonText JNull, 290) \<and>
   fst (CacheService_get ''k'' (elapse 10 (snd (CacheService_set ''k'' PNone None fresh_world)))) = Returns PNone \<and>
   map_of (store fresh_world) ''k'' = None \<and>
   fst (CacheService_get ''k'' fresh_world) = Returns PNone"
proof -
  have g: "goes_through 2 fresh_world" by (simp add: goes_through_def fresh_world_def)
  have n: "map_of (store fresh_world) ''k'' = None" by (simp add: fresh_world_def)
  show ?thesis
    using g n cached_null_reads_as_absent[OF g, of 10 "''k''"] by simp
qed

subsection \<open>Notifications\<close>

lemma publish_ok:
  assumes "json_dumps w (PDict message) = Inr j" and "goes_through (Suc n) w"
  shows "publish channel message w =
     (Returns PNone,
      (snd (get_redis w))\<lparr>faults := tl (faults w),
         published := published w @ [(channel, JsonText j)]\<rparr>)"
  using assms goes_through_Suc[OF assms(2)]
  by (simp add: publish_def except_Exception_def bind_io_def get_redis_eq
      raise_or_return_def redis_publish_def transport_eq return_io_def json_dumps_def)

text \<open>
  C4. When the transport lets the command through, \<open>notify_product_change(product_id,
  action)\<close> publishes one message, the object with the members \<open>product_id\<close> and
  \<open>action\<close>, on \<open>channel:products\<close>; \<open>notify_order_change(order_id, action, user_id)\<close>
  publishes one message, the object with the members \<open>order_id\<close>, \<open>action\<close> and
  \<open>user_id\<close>, on \<open>channel:orders\<close>, where \<open>user_id\<close> is \<open>null\<close> when the argument is
  left out.
\<close>

theorem notification_shapes:
  assumes "goes_through 1 w"
  shows "fst (notify_product_change product_id action w) = Returns PNone \<and>
         published (snd (notify_product_change product_id action w)) =
           published w @ [(''channel:products'',
              JsonText (JObj [(''product_id'', JStr product_id), (''action'', JStr action)]))] \<and>
         fst (notify_order_change order_id action (Some user_id) w) = Returns PNone \<and>
         published (snd (notify_order_change order_id action (Some user_id) w)) =
           published w @ [(''channel:orders'',
              JsonText (JObj [(''order_id'', JStr order_id), (''action'', JStr action),
                              (''user_id'', JStr user_id)]))] \<and>
         fst (notify_order_change order_id action None w) = Returns PNone \<and>
         published (snd (notify_order_change order_id action None w)) =
           published w @ [(''channel:orders'',
              JsonText (JObj [(''order_id'', JStr order_id), (''action'', JStr action),
                              (''user_id'', JNull)]))]"
proof -
  have g: "goes_through (Suc 0) w" using assms by simp
  have p: "json_dumps w (PDict [(KStr ''product_id'', PStr product_id), (KStr ''action'', PStr action)])
      = Inr (JObj [(''product_id'', JStr product_id), (''action'', JStr action)])" by (simp add: json_dumps_def)
  have o1: "json_dumps w (PDict [(KStr ''order_id'', PStr order_id), (KStr ''action'', PStr action),
           (KStr ''user_id'', PStr user_id)])
      = Inr (JObj [(''order_id'', JStr order_id), (''action'', JStr action),
           (''user_id'', JStr user_id)])" by (simp add: json_dumps_def)
  have o2: "json_dumps w (PDict [(KStr ''order_id'', PStr order_id), (KStr ''action'', PStr action),
           (KStr ''user_id'', PNone)])
      = Inr (JObj [(''order_id'', JStr order_id), (''action'', JStr action),
           (''user_id'', JNull)])" by (simp add: json_dumps_def)
  show ?thesis
    by (simp add: notify_product_change_def notify_order_change_def bind_io_def return_io_def
        publish_ok[OF p g] publish_ok[OF o1 g] publish_ok[OF o2 g]
        CHANNEL_PRODUCTS_def CHANNEL_ORDERS_def)
qed

theorem notification_shapes_witness:
  "goes_through 1 fresh_world \<and>
   published (snd (notify_product_change ''p1'' ''updated'' fresh_world)) =
     [(''channel:products'', JsonText (JObj [(''product_id'', JStr ''p1''), (''action'', JStr ''updated'')]))] \<and>
   published (snd (notify_order_change ''o1'' ''updated'' None fresh_world)) =
     [(''channel:orders'', JsonText (JObj [(''order_id'', JStr ''o1''), (''action'', JStr ''updated''),
                              (''user_id'', JNull)]))]"
proof -
  have g: "goes_through 1 fresh_world" by (simp add: goes_through_def fresh_world_def)
  have e: "published fresh_world = []" by (simp add: fresh_world_def)
  show ?thesis
    using g e notification_shapes[OF g, where product_id = "''p1''" and action = "''updated''"
        and order_id = "''o1''"] by simp
qed

subsection \<open>Serialization\<close>




subsection \<open>Transport failures\<close>

lemma get_fails:
  "is_Exception e \<Longrightarrow> faults w = Some e # fs \<Longrightarrow> fst (CacheService_get key w) = Returns PNone"
  by (simp add: CacheService_get_def except_Exception_def bind_io_def get_redis_eq
      redis_get_def transport_eq)

lemma set_fails:
  "is_Exception e \<Longrightarrow> faults w = Some e # fs \<Longrightarrow>
   fst (CacheService_set key v ttl w) = Returns False \<and>
   store (snd (CacheService_set key v ttl w)) = store w"
  by (cases "dumps (Suc (encoder_depth w)) v")
     (auto dest: dumps_raises(1) simp add: CacheService_set_def except_Exception_def bind_io_def
        get_redis_eq raise_or_return_def redis_setex_def transport_eq json_dumps_def)

lemma delete_fails:
  "is_Exception e \<Longrightarrow> faults w = Some e # fs \<Longrightarrow>
   fst (CacheService_delete key w) = Returns False \<and>
   store (snd (CacheService_delete key w)) = store w"
  by (simp add: CacheService_delete_def except_Exception_def bind_io_def get_redis_eq
      redis_delete_def transport_eq)

lemma delete_pattern_fails_scan:
  "is_Exception e \<Longrightarrow> faults w = Some e # fs \<Longrightarrow>
   fst (CacheService_delete_pattern pattern w) = Returns 0 \<and>
   store (snd (CacheService_delete_pattern pattern w)) = store w"
  by (simp add: CacheService_delete_pattern_def except_Exception_def bind_io_def get_redis_eq
      redis_scan_iter_def transport_eq)

lemma delete_pattern_fails_delete:
  "is_Exception e \<Longrightarrow> faults w = None # Some e # fs \<Longrightarrow>
   fst (CacheService_delete_pattern pattern w) = Returns 0 \<and>
   store (snd (CacheService_delete_pattern pattern w)) = store w"
  by (simp add: CacheService_delete_pattern_def except_Exception_def bind_io_def get_redis_eq
      redis_scan_iter_def redis_delete_def transport_eq return_io_def)

lemma publish_fails:
  "is_Exception e \<Longrightarrow> faults w = Some e # fs \<Longrightarrow>
   fst (publish channel message w) = Returns PNone \<and>
   published (snd (publish channel message w)) = published w \<and>
   store (snd (publish channel message w)) = store w"
  by (cases "dumps (Suc (encoder_depth w)) (PDict message)")
     (auto dest: dumps_raises(1) simp del: dumps.simps simp add: publish_def except_Exception_def
        bind_io_def get_redis_eq raise_or_return_def redis_publish_def transport_eq json_dumps_def)

text \<open>
  C2. Let the transport raise an error \<open>e\<close> of class \<open>Exception\<close> (every error of the
  Redis client is one: connection, timeout and response errors). If the first command
  of an operation fails so, then \<open>get\<close> returns \<open>None\<close>, \<open>set\<close> and \<open>delete\<close> return \<open>False\<close>,
  \<open>delete_pattern\<close> returns 0 and \<open>publish\<close> returns \<open>None\<close> with nothing published,
  the store being as it was; if the scan of \<open>delete_pattern\<close> goes through and its
  delete fails, \<open>delete_pattern\<close> returns 0 as well. No operation issues more
  commands than these, so none of them raises.
\<close>

theorem transport_failure_gives_sentinel:
  assumes "is_Exception e"
  shows "(faults w = Some e # fs \<longrightarrow>
            fst (CacheService_get key w) = Returns PNone \<and>
            fst (CacheService_set key v ttl w) = Returns False \<and>
            store (snd (CacheService_set key v ttl w)) = store w \<and>
            fst (CacheService_delete key w) = Returns False \<and>
            store (snd (CacheService_delete key w)) = store w \<and>
            fst (CacheService_delete_pattern pattern w) = Returns 0 \<and>
            store (snd (CacheService_delete_pattern pattern w)) = store w \<and>
            fst (publish channel message w) = Returns PNone \<and>
            published (snd (publish channel message w)) = published w) \<and>
         (faults w = None # Some e # fs \<longrightarrow>
            fst (CacheService_delete_pattern pattern w) = Returns 0 \<and>
            store (snd (CacheService_delete_pattern pattern w)) = store w)"
  using get_fails[OF assms, of w fs key] set_fails[OF assms, of w fs key v ttl]
    delete_fails[OF assms, of w fs key] delete_pattern_fails_scan[OF assms, of w fs pattern]
    delete_pattern_fails_delete[OF assms, of w fs pattern]
    publish_fails[OF assms, of w fs channel message]
  by simp

theorem transport_failure_gives_sentinel_witness:
  "is_Exception ConnectionError \<and>
   faults (fresh_world\<lparr>faults := [Some ConnectionError]\<rparr>) = Some ConnectionError # [] \<and>
   fst (CacheService_get ''k'' (fresh_world\<lparr>faults := [Some ConnectionError]\<rparr>)) = Returns PNone \<and>
   fst (CacheService_set ''k'' (PInt 1) None (fresh_world\<lparr>faults := [Some ConnectionError]\<rparr>)) = Returns False \<and>
   fst (CacheService_delete ''k'' (fresh_world\<lparr>faults := [Some ConnectionError]\<rparr>)) = Returns False \<and>
   fst (CacheService_delete_pattern ''products:*'' (fresh_world\<lparr>faults := [Some ConnectionError]\<rparr>)) = Returns 0 \<and>
   fst (publish ''channel:sync'' [] (fresh_world\<lparr>faults := [Some ConnectionError]\<rparr>)) = Returns PNone \<and>
   published (snd (publish ''channel:sync'' [] (fresh_world\<lparr>faults := [Some ConnectionError]\<rparr>))) = [] \<and>
   is_Exception TimeoutError \<and>
   faults (fresh_world\<lparr>store := [(''products:1'', JsonText JNull, 60)], faults := [None, Some TimeoutError]\<rparr>)
     = None # Some TimeoutError # [] \<and>
   fst (CacheService_delete_pattern ''products:*''
     (fresh_world\<lparr>store := [(''products:1'', JsonText JNull, 60)], faults := [None, Some TimeoutError]\<rparr>)) = Returns 0 \<and>
   store (snd (CacheService_delete_pattern ''products:*''
     (fresh_world\<lparr>store := [(''products:1'', JsonText JNull, 60)], faults := [None, Some TimeoutError]\<rparr>)))
     = [(''products:1'', JsonText JNull, 60)]"
proof -
  let ?w1 = "fresh_world\<lparr>faults := [Some ConnectionError]\<rparr>"
  let ?w2 = "fresh_world\<lparr>store := [(''products:1'', JsonText JNull, 60)], faults := [None, Some TimeoutError]\<rparr>"
  have e1: "is_Exception ConnectionError" and e2: "is_Exception TimeoutError" by simp_all
  have f1: "faults ?w1 = Some ConnectionError # []" by simp
  have f2: "faults ?w2 = None # Some TimeoutError # []" by simp
  have p: "published ?w1 = []" by (simp add: fresh_world_def)
  have s: "store ?w2 = [(''products:1'', JsonText JNull, 60)]" by simp
  note a = transport_failure_gives_sentinel[OF e1, where w = ?w1
        and fs = "[]" and key = "''k''" and v = "PInt 1" and ttl = None and pattern = "''products:*''"
        and channel = "''channel:sync''" and message = "[]"]
  note b = transport_failure_gives_sentinel[OF e2, where w = ?w2 and fs = "[]"
        and pattern = "''products:*''"]
  have c1: "fst (CacheService_get ''k'' ?w1) = Returns PNone \<and>
      fst (CacheService_set ''k'' (PInt 1) None ?w1) = Returns False \<and>
      fst (CacheService_delete ''k'' ?w1) = Returns False \<and>
      fst (CacheService_delete_pattern ''products:*'' ?w1) = Returns 0 \<and>
      fst (publish ''channel:sync'' [] ?w1) = Returns PNone \<and>
      published (snd (publish ''channel:sync'' [] ?w1)) = []"
    using a f1 p by simp
  have c2: "fst (CacheService_delete_pattern ''products:*'' ?w2) = Returns 0 \<and>
      store (snd (CacheService_delete_pattern ''products:*'' ?w2)) = [(''products:1'', JsonText JNull, 60)]"
    using b f2 s by simp
  from e1 e2 f1 f2 c1 c2 show ?thesis by simp
qed

text \<open>The handler is for class \<open>Exception\<close> only: a cancellation while the command
  is awaited goes on to the caller.\<close>

lemma cancellation_is_not_caught:
  "faults w = Some CancelledError # fs \<Longrightarrow>
   fst (CacheService_get key w) = Raises CancelledError"
  by (simp add: CacheService_get_def except_Exception_def bind_io_def get_redis_eq
      redis_get_def transport_eq)

subsection \<open>Invalidation by pattern\<close>

lemma del_keys_distinct:
  "distinct ks \<Longrightarrow> set ks \<subseteq> fst ` set st \<Longrightarrow>
   del_keys ks st = (length ks, filter (\<lambda>e. fst e \<notin> set ks) st)"
proof (induction ks arbitrary: st)
  case Nil
  then show ?case by simp
next
  case (Cons k ks)
  have d: "AList.delete k st = filter (\<lambda>e. fst e \<noteq> k) st"
    by (induction st) auto
  have "set ks \<subseteq> fst ` set (AList.delete k st)"
  proof
    fix x assume x: "x \<in> set ks"
    with Cons.prems obtain e where "e \<in> set st" "fst e = x" by auto
    moreover from x Cons.prems have "x \<noteq> k" by auto
    ultimately show "x \<in> fst ` set (AList.delete k st)" by (force simp: d)
  qed
  with Cons have "del_keys ks (AList.delete k st) =
      (length ks, filter (\<lambda>e. fst e \<notin> set ks) (AList.delete k st))"
    by simp
  moreover have "filter (\<lambda>e. fst e \<notin> set ks) (AList.delete k st) =
      filter (\<lambda>e. fst e \<notin> set (k # ks)) st"
    by (auto simp: d intro: filter_cong)
  ultimately show ?case using Cons.prems by simp
qed

lemma filter_eq_single: "distinct xs \<Longrightarrow> x \<in> set xs \<Longrightarrow> filter (\<lambda>y. y = x) xs = [x]"
  by (induction xs) (auto simp: filter_empty_conv)

lemma map_of_filter_keep:
  "P k \<Longrightarrow> map_of (filter (\<lambda>e. P (fst e)) st) k = map_of st k"
  by (induction st) auto

lemma delete_pattern_ok:
  assumes g: "goes_through (Suc (Suc n)) w" and d: "distinct (map fst (store w))"
  shows "fst (CacheService_delete_pattern pattern w) =
           Returns (int (length (filter (glob_match pattern) (map fst (store w))))) \<and>
         store (snd (CacheService_delete_pattern pattern w)) =
           filter (\<lambda>e. \<not> glob_match pattern (fst e)) (store w)"
proof -
  let ?ks = "filter (glob_match pattern) (map fst (store w))"
  have f1: "(case faults w of [] \<Rightarrow> None | f # _ \<Rightarrow> f) = None"
    by (rule goes_through_Suc[OF g])
  have f2: "(case tl (faults w) of [] \<Rightarrow> None | f # _ \<Rightarrow> f) = None"
    using goes_through_Suc[OF goes_through_tl[OF g, of "w\<lparr>faults := tl (faults w)\<rparr>"]] by simp
  have dk: "del_keys ?ks (store w) = (length ?ks, filter (\<lambda>e. fst e \<notin> set ?ks) (store w))"
    using d by (intro del_keys_distinct) auto
  have fe: "filter (\<lambda>e. fst e \<notin> set ?ks) (store w) =
            filter (\<lambda>e. \<not> glob_match pattern (fst e)) (store w)"
    by (auto intro: filter_cong)
  show ?thesis
  proof (cases "?ks = []")
    case True
    then have "filter (\<lambda>e. \<not> glob_match pattern (fst e)) (store w) = store w"
      by (auto simp: filter_empty_conv filter_id_conv)
    with True show ?thesis
      using f1
      by (simp add: CacheService_delete_pattern_def except_Exception_def bind_io_def get_redis_eq
          redis_scan_iter_def transport_eq return_io_def)
  next
    case False
    then show ?thesis
      using f1 f2 dk fe
      by (simp add: CacheService_delete_pattern_def except_Exception_def bind_io_def get_redis_eq
          redis_scan_iter_def redis_delete_def transport_eq return_io_def)
  qed
qed

lemma products_glob_keys:
  "glob_match ''products:*'' ''products:all''"
  "glob_match ''products:*'' ''products:1''"
  "glob_match ''products:*'' ''products:2''"
  "\<not> glob_match ''products:*'' ''categories:tree''"
  by (simp_all add: backslash_def)

lemma products_glob:
  "k \<in> {''products:all'', ''products:1'', ''products:2'', ''categories:tree''} \<Longrightarrow>
   glob_match ''products:*'' k = (k \<noteq> ''categories:tree'')"
  using products_glob_keys by (auto simp del: glob_match.simps)

text \<open>
  C3, as amended. For every state whose store holds exactly the keys \<open>products:all\<close>,
  \<open>products:1\<close>, \<open>products:2\<close> and \<open>categories:tree\<close>, the transport letting the two
  commands through: \<open>delete_pattern("products:*")\<close> returns 3;
  \<open>invalidate_products()\<close>, which makes this call and drops its result, returns
  \<open>None\<close>, and after it the store holds the key \<open>categories:tree\<close> alone, with the
  entry it had.
\<close>

theorem invalidate_products_four_keys:
  assumes "goes_through 2 w" and "distinct (map fst (store w))"
    and "set (map fst (store w)) = {''products:all'', ''products:1'', ''products:2'', ''categories:tree''}"
  shows "fst (CacheService_delete_pattern ''products:*'' w) = Returns 3 \<and>
         fst (invalidate_products w) = Returns PNone \<and>
         map fst (store (snd (invalidate_products w))) = [''categories:tree''] \<and>
         map_of (store (snd (invalidate_products w))) ''categories:tree'' =
           map_of (store w) ''categories:tree''"
proof -
  let ?keys = "map fst (store w)"
  have g: "goes_through (Suc (Suc 0)) w" using assms(1) by (simp add: numeral_2_eq_2)
  note ok = delete_pattern_ok[OF g assms(2), of "''products:*''"]
  have m: "k \<in> set ?keys \<Longrightarrow> glob_match ''products:*'' k = (k \<noteq> ''categories:tree'')" for k
    using products_glob[of k] assms(3) by simp
  have fk: "filter (glob_match ''products:*'') ?keys = filter (\<lambda>k. k \<noteq> ''categories:tree'') ?keys"
    by (rule filter_cong[OF refl]) (simp add: m del: glob_match.simps)
  have "set (filter (\<lambda>k. k \<noteq> ''categories:tree'') ?keys) = {''products:all'', ''products:1'', ''products:2''}"
    using assms(3) by auto
  moreover have "distinct (filter (\<lambda>k. k \<noteq> ''categories:tree'') ?keys)"
    using assms(2) by simp
  ultimately have "length (filter (\<lambda>k. k \<noteq> ''categories:tree'') ?keys) = card {''products:all'', ''products:1'', ''products:2''}"
    using distinct_card by metis
  then have len: "length (filter (glob_match ''products:*'') ?keys) = 3"
    by (simp add: fk)
  have r: "fst (CacheService_delete_pattern ''products:*'' w) = Returns 3"
    using ok len by simp
  have inv: "invalidate_products w = (Returns PNone, snd (CacheService_delete_pattern ''products:*'' w))"
    using r by (cases "CacheService_delete_pattern ''products:*'' w")
      (simp add: invalidate_products_def PREFIX_PRODUCTS_def bind_io_def return_io_def)
  have st: "store (snd (invalidate_products w)) =
      filter (\<lambda>e. \<not> glob_match ''products:*'' (fst e)) (store w)"
    using ok by (simp add: inv)
  have "map fst (filter (\<lambda>e. \<not> glob_match ''products:*'' (fst e)) (store w)) =
      filter (\<lambda>k. \<not> glob_match ''products:*'' k) ?keys"
    by (simp add: filter_map comp_def)
  also have "\<dots> = filter (\<lambda>k. k = ''categories:tree'') ?keys"
    by (rule filter_cong[OF refl]) (simp add: m del: glob_match.simps)
  also have "\<dots> = [''categories:tree'']"
    using assms(2,3) by (intro filter_eq_single) auto
  finally have keys: "map fst (store (snd (invalidate_products w))) = [''categories:tree'']"
    by (simp add: st)
  have "\<not> glob_match ''products:*'' ''categories:tree''" by (rule products_glob_keys(4))
  then have "map_of (filter (\<lambda>e. \<not> glob_match ''products:*'' (fst e)) (store w)) ''categories:tree'' =
      map_of (store w) ''categories:tree''"
    by (rule map_of_filter_keep[where P = "\<lambda>k. \<not> glob_match ''products:*'' k"])
  then show ?thesis using r inv keys st by simp
qed

theorem invalidate_products_four_keys_witness:
  "goes_through 2 (fresh_world\<lparr>store := [(''products:all'', JsonText (JArr []), 3600),
       (''categories:tree'', JsonText (JArr []), 3600), (''products:1'', JsonText JNull, 3600),
       (''products:2'', JsonText JNull, 3600)]\<rparr>) \<and>
   fst (CacheService_delete_pattern ''products:*'' (fresh_world\<lparr>store := [(''products:all'', JsonText (JArr []), 3600),
       (''categories:tree'', JsonText (JArr []), 3600), (''products:1'', JsonText JNull, 3600),
       (''products:2'', JsonText JNull, 3600)]\<rparr>)) = Returns 3 \<and>
   fst (invalidate_products (fresh_world\<lparr>store := [(''products:all'', JsonText (JArr []), 3600),
       (''categories:tree'', JsonText (JArr []), 3600), (''products:1'', JsonText JNull, 3600),
       (''products:2'', JsonText JNull, 3600)]\<rparr>)) = Returns PNone \<and>
   map fst (store (snd (invalidate_products (fresh_world\<lparr>store := [(''products:all'', JsonText (JArr []), 3600),
       (''categories:tree'', JsonText (JArr []), 3600), (''products:1'', JsonText JNull, 3600),
       (''products:2'', JsonText JNull, 3600)]\<rparr>)))) = [''categories:tree'']"
proof -
  let ?w = "fresh_world\<lparr>store := [(''products:all'', JsonText (JArr []), 3600),
       (''categories:tree'', JsonText (JArr []), 3600), (''products:1'', JsonText JNull, 3600),
       (''products:2'', JsonText JNull, 3600)]\<rparr>"
  have g: "goes_through 2 ?w" by (simp add: goes_through_def fresh_world_def)
  have d: "distinct (map fst (store ?w))" by simp
  have s: "set (map fst (store ?w)) = {''products:all'', ''products:1'', ''products:2'', ''categories:tree''}"
    by auto
  show ?thesis
    using g invalidate_products_four_keys[OF g d s] by simp
qed

text \<open>
  C3 as it is stated fails in its last part: \<open>invalidate_products()\<close> returns \<open>None\<close>,
  not the count 3 that the call of \<open>delete_pattern\<close> inside it returns.
\<close>

theorem invalidate_products_returns_count_counterexample:
  "fst (CacheService_delete_pattern ''products:*'' (fresh_world\<lparr>store := [(''products:all'', JsonText (JArr []), 3600),
       (''products:1'', JsonText JNull, 3600), (''products:2'', JsonText JNull, 3600),
       (''categories:tree'', JsonText (JArr []), 3600)]\<rparr>)) = Returns 3 \<and>
   fst (invalidate_products (fresh_world\<lparr>store := [(''products:all'', JsonText (JArr []), 3600),
       (''products:1'', JsonText JNull, 3600), (''products:2'', JsonText JNull, 3600),
       (''categories:tree'', JsonText (JArr []), 3600)]\<rparr>)) = Returns PNone \<and>
   fst (invalidate_products (fresh_world\<lparr>store := [(''products:all'', JsonText (JArr []), 3600),
       (''products:1'', JsonText JNull, 3600), (''products:2'', JsonText JNull, 3600),
       (''categories:tree'', JsonText (JArr []), 3600)]\<rparr>)) \<noteq> Returns (PInt 3)"
  by code_simp

subsection \<open>The connection, one call after the other\<close>

text \<open>
  A second call of \<open>get_redis\<close> returns the client of the first and builds nothing.
  (Callers that run at the same time are outside this embedding.)
\<close>

lemma get_redis_idempotent:
  "get_redis (snd (get_redis w)) = (fst (get_redis w), snd (get_redis w))"
  by (simp add: get_redis_eq split: option.splits)

lemma get_redis_constructs_once:
  "redis_pool w = None \<Longrightarrow> constructed (snd (get_redis w)) = Suc (constructed w)"
  "constructed (snd (get_redis (snd (get_redis w)))) = constructed (snd (get_redis w))"
  by (simp_all add: get_redis_eq split: option.splits)

end
